theory Spec2Isabelle
  imports Main
begin

section \<open>Python values shared by the models\<close>

text \<open>
  The exceptions the modelled Python code can raise. A function of the source that can
  raise returns \<open>error + 'a\<close>, with \<open>Inl\<close> for the exception.
\<close>

datatype error =
    AttributeError
  | KeyError
  | TypeError
  | NotImplementedError
  | TypeResolutionError

text \<open>A message header is a Python dict from field names to strings.\<close>

type_synonym header = "string \<rightharpoonup> string"

text \<open>\<open>dict.setdefault(k, v)\<close>: the entry is written only where the key is absent.\<close>

definition setdefault :: "('k \<rightharpoonup> 'v) \<Rightarrow> 'k \<Rightarrow> 'v \<Rightarrow> ('k \<rightharpoonup> 'v)" where
  "setdefault d k v = (case d k of None \<Rightarrow> d(k \<mapsto> v) | Some _ \<Rightarrow> d)"

section \<open>drivers/ServerRequestDriver.py\<close>

subsection \<open>State\<close>

text \<open>
  Modelled from the spec: \<open>ServerResponseDriver\<close> is not among the sources. The spec
  (4.3) describes it as an ephemeral driver bound to the client's \<open>response_address\<close>
  and to the originating \<open>request_id\<close>, with a listening address of its own
  (\<open>model_response_address\<close>) that it generates when constructed. The generated
  address is the parameter \<open>addr\<close> of the constructor; \<open>start\<close> marks it running.
\<close>

record response_driver =
  rd_response_address :: string
  rd_comm :: "string option"
  rd_msg_id :: string
  model_response_address :: string
  rd_started :: bool

definition ServerResponseDriver ::
  "string \<Rightarrow> string \<Rightarrow> string option \<Rightarrow> string \<Rightarrow> response_driver" where
  "ServerResponseDriver addr response_addr comm_cls msg_id =
     \<lparr>rd_response_address = response_addr, rd_comm = comm_cls, rd_msg_id = msg_id,
      model_response_address = addr, rd_started = False\<rparr>"

definition start :: "response_driver \<Rightarrow> response_driver" where
  "start d = d\<lparr>rd_started := True\<rparr>"

text \<open>
  The keyword arguments of \<open>send_message\<close> that the driver touches: \<open>send_header\<close> and
  \<open>header_kwargs\<close>; \<open>None\<close> is a keyword the caller did not pass.
\<close>

record send_kwargs =
  send_header :: "bool option"
  header_kwargs :: "header option"

definition no_kwargs :: send_kwargs where
  "no_kwargs = \<lparr>send_header = None, header_kwargs = None\<rparr>"

text \<open>
  The attributes of a \<open>ServerRequestDriver\<close> that its methods read and write.
  \<open>last_header\<close> is \<open>self.icomm._last_header\<close>: \<open>None\<close> until a message has been
  received (the attribute does not exist then, \<open>test_error_attributes\<close>), afterwards the
  dict of the last message's header. \<open>is_comm_open\<close>, \<open>eof_msg\<close>, \<open>running\<close> and \<open>sent\<close>
  stand for the parts of the base class \<open>ConnectionDriver\<close> and of its comms that the
  methods use: whether the comms are open, the input comm's EOF sentinel, whether the pump
  is still running, and what has been handed to the output comm, in order.
\<close>

record driver =
  nclients :: int
  response_drivers :: "response_driver list"
  comm :: "string option"
  last_header :: "header option"
  is_comm_open :: bool
  eof_msg :: string
  running :: bool
  sent :: "(string \<times> send_kwargs) list"

text \<open>\<open>__init__\<close>: no response drivers, no clients.\<close>

definition init_driver :: "string option \<Rightarrow> string \<Rightarrow> driver" where
  "init_driver comm_cls eof =
     \<lparr>nclients = 0, response_drivers = [], comm = comm_cls, last_header = None,
      is_comm_open = True, eof_msg = eof, running = True, sent = []\<rparr>"

subsection \<open>The base class hooks\<close>

text \<open>
  Modelled from the spec: \<open>ConnectionDriver\<close> is not among the sources. The spec (4.2)
  gives its hooks: \<open>on_message\<close> is the identity by default; \<open>send_message\<close> sends to the
  output comm, where (4.1) sending the EOF sentinel returns \<open>False\<close>; \<open>on_eof\<close> propagates
  EOF to the output and halts the pump. \<open>on_eof\<close> sends through \<open>self.send_message\<close>, which
  is the subclass's method: it is the parameter \<open>self_send_message\<close>.
\<close>

datatype ret = RStr string | RFalse

definition ConnectionDriver_on_message :: "driver \<Rightarrow> string \<Rightarrow> string \<times> driver" where
  "ConnectionDriver_on_message st msg = (msg, st)"

definition ConnectionDriver_send_message ::
  "driver \<Rightarrow> string \<Rightarrow> send_kwargs \<Rightarrow> bool \<times> driver" where
  "ConnectionDriver_send_message st msg kwargs =
     (msg \<noteq> eof_msg st, st\<lparr>sent := sent st @ [(msg, kwargs)]\<rparr>)"

definition ConnectionDriver_on_eof ::
  "(driver \<Rightarrow> string \<Rightarrow> send_kwargs \<Rightarrow> error + (bool \<times> driver)) \<Rightarrow> driver
     \<Rightarrow> error + (ret \<times> driver)" where
  "ConnectionDriver_on_eof self_send_message st =
     (case self_send_message st (eof_msg st) no_kwargs of
        Inl e \<Rightarrow> Inl e
      | Inr (_, st') \<Rightarrow> Inr (RFalse, st'\<lparr>running := False\<rparr>))"

subsection \<open>Properties and methods of the class\<close>

text \<open>\<open>request_id\<close>: \<open>self.icomm._last_header['id']\<close>.\<close>

definition request_id :: "driver \<Rightarrow> error + string" where
  "request_id st =
     (case last_header st of
        None \<Rightarrow> Inl AttributeError
      | Some h \<Rightarrow> (case h ''id'' of None \<Rightarrow> Inl KeyError | Some i \<Rightarrow> Inr i))"

text \<open>\<open>response_address\<close>: \<open>self.icomm._last_header['response_address']\<close>.\<close>

definition response_address :: "driver \<Rightarrow> error + string" where
  "response_address st =
     (case last_header st of
        None \<Rightarrow> Inl AttributeError
      | Some h \<Rightarrow> (case h ''response_address'' of None \<Rightarrow> Inl KeyError | Some a \<Rightarrow> Inr a))"

text \<open>
  \<open>send_message\<close>. \<open>addr\<close> is the address the new response driver generates for itself.
  The lock is not modelled: the model is sequential.
\<close>

definition send_message ::
  "string \<Rightarrow> driver \<Rightarrow> string \<Rightarrow> send_kwargs \<Rightarrow> error + (bool \<times> driver)" where
  "send_message addr st msg kwargs =
     (case response_address st of
        Inl e \<Rightarrow> Inl e
      | Inr ra \<Rightarrow>
          if ra \<noteq> ''EOF'' then
            if \<not> is_comm_open st then Inr (False, st)
            else
              (case request_id st of
                 Inl e \<Rightarrow> Inl e
               | Inr rid \<Rightarrow>
                   let response_driver = start (ServerResponseDriver addr ra (comm st) rid);
                       st1 = st\<lparr>response_drivers := response_drivers st @ [response_driver]\<rparr>;
                       sh = (case send_header kwargs of None \<Rightarrow> True | Some b \<Rightarrow> b);
                       hk = (case header_kwargs kwargs of None \<Rightarrow> Map.empty | Some h \<Rightarrow> h);
                       hk1 = setdefault hk ''response_address''
                               (model_response_address response_driver);
                       hk2 = setdefault hk1 ''id'' rid
                   in Inr (ConnectionDriver_send_message st1 msg
                             (kwargs\<lparr>send_header := Some sh, header_kwargs := Some hk2\<rparr>)))
          else Inr (ConnectionDriver_send_message st msg kwargs))"

text \<open>
  \<open>on_eof\<close>: the count is decremented first; only when it is then 0 the header is
  overwritten and the base \<open>on_eof\<close> called. Writing into \<open>_last_header\<close> raises when no
  message has been received yet.
\<close>

definition on_eof :: "string \<Rightarrow> driver \<Rightarrow> error + (ret \<times> driver)" where
  "on_eof addr st =
     (let st1 = st\<lparr>nclients := nclients st - 1\<rparr> in
      if nclients st1 = 0 then
        (case last_header st1 of
           None \<Rightarrow> Inl AttributeError
         | Some h \<Rightarrow>
             ConnectionDriver_on_eof (send_message addr)
               (st1\<lparr>last_header := Some (h(''response_address'' \<mapsto> ''EOF''))\<rparr>))
      else Inr (RStr '''', st1))"

text \<open>\<open>on_message\<close>; \<open>CIS_CLIENT_INI\<close> is imported from a module that is not among the
  sources, so the sentinel is a parameter.\<close>

definition on_message :: "string \<Rightarrow> driver \<Rightarrow> string \<Rightarrow> string \<times> driver" where
  "on_message CIS_CLIENT_INI st msg =
     (if msg = CIS_CLIENT_INI
      then ConnectionDriver_on_message (st\<lparr>nclients := nclients st + 1\<rparr>) ''''
      else ConnectionDriver_on_message st msg)"

subsection \<open>The pump\<close>

text \<open>
  Modelled from the spec: the pump loop of \<open>ConnectionDriver\<close> is not among the sources.
  The spec (4.2) has it receive from the input comm, pass a received message through
  \<open>on_message\<close> and send the result to the output comm, and call \<open>on_eof\<close> on EOF; a
  message that \<open>on_message\<close> turned into the empty message is not forwarded (4.3: the
  sign-on is swallowed). Receiving a message stores its header in \<open>_last_header\<close>. Once
  the base \<open>on_eof\<close> has halted the pump, nothing more is processed. \<open>new_address\<close>
  gives the address the next response driver generates.
\<close>

datatype event = Recv header string | RecvEOF

definition run_step ::
  "string \<Rightarrow> (nat \<Rightarrow> string) \<Rightarrow> driver \<Rightarrow> event \<Rightarrow> error + driver" where
  "run_step CIS_CLIENT_INI new_address st ev =
     (if \<not> running st then Inr st
      else
        (case ev of
           Recv h msg \<Rightarrow>
             (let (m, st1) = on_message CIS_CLIENT_INI (st\<lparr>last_header := Some h\<rparr>) msg in
              if m = '''' then Inr st1
              else
                (case send_message (new_address (length (response_drivers st1))) st1 m
                        no_kwargs of
                   Inl e \<Rightarrow> Inl e
                 | Inr (_, st2) \<Rightarrow> Inr st2))
         | RecvEOF \<Rightarrow>
             (case on_eof (new_address (length (response_drivers st))) st of
                Inl e \<Rightarrow> Inl e
              | Inr (_, st1) \<Rightarrow> Inr st1)))"

fun run_loop ::
  "string \<Rightarrow> (nat \<Rightarrow> string) \<Rightarrow> driver \<Rightarrow> event list \<Rightarrow> error + driver" where
  "run_loop ini na st [] = Inr st"
| "run_loop ini na st (ev # evs) =
     (case run_step ini na st ev of Inl e \<Rightarrow> Inl e | Inr st' \<Rightarrow> run_loop ini na st' evs)"

text \<open>How many times the EOF sentinel has been handed to the output comm.\<close>

definition eofs_forwarded :: "driver \<Rightarrow> nat" where
  "eofs_forwarded st = length (filter (\<lambda>(m, _). m = eof_msg st) (sent st))"

text \<open>
  Sequences of sign-ons and sign-offs: \<open>signs_only\<close> holds when every event is a sign-on
  (the sentinel) or a sign-off (EOF); \<open>balance\<close> is sign-ons minus sign-offs;
  \<open>clients_remain\<close> holds when after every proper, non-empty prefix some client is still
  signed on.
\<close>

definition signs_only :: "string \<Rightarrow> event list \<Rightarrow> bool" where
  "signs_only ini evs =
     list_all (\<lambda>e. case e of Recv h m \<Rightarrow> m = ini | RecvEOF \<Rightarrow> True) evs"

fun balance :: "string \<Rightarrow> event list \<Rightarrow> int" where
  "balance ini [] = 0"
| "balance ini (Recv h m # evs) = (if m = ini then 1 else 0) + balance ini evs"
| "balance ini (RecvEOF # evs) = balance ini evs - 1"

definition clients_remain :: "string \<Rightarrow> event list \<Rightarrow> bool" where
  "clients_remain ini evs = (\<forall>k \<in> {1..<length evs}. 0 < balance ini (take k evs))"

text \<open>The pump is running, and a header has been received if a client is signed on.\<close>

definition counting :: "driver \<Rightarrow> bool" where
  "counting st = (running st \<and> (0 < nclients st \<longrightarrow> last_header st \<noteq> None))"

text \<open>A sign-on of a client, with a header, and a driver that received a request: the
  concrete inputs of the examples below.\<close>

definition sign_on :: event where
  "sign_on = Recv [''id'' \<mapsto> ''c0'', ''response_address'' \<mapsto> ''A0''] ''CIS_BEGIN_CLIENT''"

definition serving :: driver where
  "serving = (init_driver (Some ''ZMQComm'') ''EOF!!!'')
     \<lparr>nclients := 1, last_header := Some [''id'' \<mapsto> ''r1'', ''response_address'' \<mapsto> ''A1'']\<rparr>"

section \<open>metaschema/datatypes: containers\<close>

subsection \<open>Values, typedefs and the registry\<close>

text \<open>
  Python values: scalars (strings, integers) and dicts. A dict is a list of key-value
  pairs in insertion order; its keys are distinct. A typedef is a dict with the keys
  \<open>'type'\<close> and \<open>'properties'\<close> (each possibly absent) and other, scalar entries;
  \<open>'properties'\<close> holds the typedef of each element.
\<close>

datatype val = Str string | Num int | Dict "(string \<times> val) list"

datatype typedef_t =
  Typedef (td_type: "string option") (td_properties: "(string \<times> typedef_t) list option")
    (td_other: "(string \<times> string) list")

text \<open>The empty dict \<open>{}\<close> as a typedef.\<close>

definition empty_typedef :: typedef_t where
  "empty_typedef = Typedef None None []"

text \<open>
  Modelled from the spec: the registry and the type classes other than the JSON object
  are not among the sources. The spec (4.4) has a process-wide mapping from type name to
  type class, whose lookup fails with a type-resolution error for an unregistered name;
  every type class implements \<open>encode_data\<close> and \<open>decode_data\<close>. A class other than the
  JSON object is given by these two methods. \<open>type_name\<close> is the name of the type of a
  Python value, by which the generic dispatcher finds the value's class.
\<close>

datatype type_cls =
    JSONObjectMetaschemaType
  | OtherType "val \<Rightarrow> typedef_t \<Rightarrow> error + val" "val \<Rightarrow> typedef_t \<Rightarrow> error + val"

record registry =
  classes :: "string \<rightharpoonup> type_cls"
  type_name :: "val \<Rightarrow> string"

definition get_type_class :: "registry \<Rightarrow> string \<Rightarrow> error + type_cls" where
  "get_type_class reg name =
     (case classes reg name of None \<Rightarrow> Inl TypeResolutionError | Some cls \<Rightarrow> Inr cls)"

subsection \<open>JSONObjectMetaschemaType.py: the four hooks\<close>

text \<open>\<open>_iterate\<close>: \<open>container.items()\<close>, which only a dict has.\<close>

definition iterate :: "val \<Rightarrow> error + (string \<times> val) list" where
  "iterate container =
     (case container of Dict kvs \<Rightarrow> Inr kvs | _ \<Rightarrow> Inl AttributeError)"

text \<open>\<open>_assign\<close>: \<open>container[index] = value\<close>; a new key goes to the end.\<close>

fun assign :: "(string \<times> 'a) list \<Rightarrow> string \<Rightarrow> 'a \<Rightarrow> (string \<times> 'a) list" where
  "assign [] index v = [(index, v)]"
| "assign ((k, x) # container) index v =
     (if k = index then (k, v) # container else (k, x) # assign container index v)"

text \<open>\<open>_has_element\<close>: \<open>index in container\<close>.\<close>

definition has_element :: "(string \<times> 'a) list \<Rightarrow> string \<Rightarrow> bool" where
  "has_element container index = (index \<in> set (map fst container))"

text \<open>\<open>_get_element\<close> (ContainerMetaschemaType.py); \<open>None\<close> is Python's \<open>None\<close>.\<close>

definition get_element :: "(string \<times> 'a) list \<Rightarrow> string \<Rightarrow> 'a option \<Rightarrow> 'a option" where
  "get_element container index dflt =
     (if has_element container index then map_of container index else dflt)"

subsection \<open>ContainerMetaschemaType.py: encode_data and decode_data\<close>

text \<open>
  \<open>JSONObject_encode_data\<close> is the class method \<open>encode_data\<close> of the source and
  \<open>encode_loop\<close> its \<open>for\<close> loop, with the container built so far. The loop encodes
  each element with the generic dispatcher \<open>encode_data\<close>, which in turn calls the class
  method for a nested container: the three are defined together.
\<close>

text \<open>
  Modelled from the spec: the generic dispatcher \<open>encode_data\<close> (the first of the three
  functions) is not among the sources. The spec (4.4) has it look up the value's type class
  by name and delegate; a typedef that is \<open>None\<close> is handed to the class as the empty
  typedef.
\<close>

function encode_data :: "registry \<Rightarrow> val \<Rightarrow> typedef_t option \<Rightarrow> error + val"
  and JSONObject_encode_data :: "registry \<Rightarrow> val \<Rightarrow> typedef_t \<Rightarrow> error + val"
  and encode_loop ::
    "registry \<Rightarrow> typedef_t \<Rightarrow> (string \<times> val) list \<Rightarrow> (string \<times> val) list
       \<Rightarrow> error + (string \<times> val) list"
where
  "encode_data reg obj tdef =
     (case get_type_class reg (type_name reg obj) of
        Inl e \<Rightarrow> Inl e
      | Inr JSONObjectMetaschemaType \<Rightarrow>
          JSONObject_encode_data reg obj
            (case tdef of None \<Rightarrow> empty_typedef | Some td \<Rightarrow> td)
      | Inr (OtherType enc dec) \<Rightarrow>
          enc obj (case tdef of None \<Rightarrow> empty_typedef | Some td \<Rightarrow> td))"
| "JSONObject_encode_data reg obj tdef =
     (case iterate obj of
        Inl e \<Rightarrow> Inl e
      | Inr kvs \<Rightarrow>
          (case encode_loop reg tdef kvs [] of
             Inl e \<Rightarrow> Inl e
           | Inr container \<Rightarrow> Inr (Dict container)))"
| "encode_loop reg tdef [] container = Inr container"
| "encode_loop reg tdef ((k, v) # rest) container =
     (let vtypedef =
            (case td_properties tdef of
               Some props \<Rightarrow> get_element props k None
             | None \<Rightarrow> None)
      in case encode_data reg v vtypedef of
           Inl e \<Rightarrow> Inl e
         | Inr vbytes \<Rightarrow> encode_loop reg tdef rest (assign container k vbytes))"
  by pat_completeness auto
termination
  by (relation "measure (\<lambda>x. case x of
        Inl (_, obj, _) \<Rightarrow> 2 * size obj + 1
      | Inr (Inl (_, obj, _)) \<Rightarrow> 2 * size obj
      | Inr (Inr (_, _, kvs, _)) \<Rightarrow> 2 * size_list (size_prod (\<lambda>_. 0) size) kvs + 1)")
    (auto simp: iterate_def split: val.splits)

text \<open>
  \<open>JSONObject_decode_data\<close> is the class method \<open>decode_data\<close> and \<open>decode_loop\<close> its
  \<open>for\<close> loop. \<open>typedef['properties']\<close> and \<open>vtypedef['type']\<close> are subscripts: an absent
  key raises \<open>KeyError\<close>.
\<close>

function JSONObject_decode_data :: "registry \<Rightarrow> val \<Rightarrow> typedef_t \<Rightarrow> error + val"
  and decode_loop ::
    "registry \<Rightarrow> typedef_t \<Rightarrow> (string \<times> val) list \<Rightarrow> (string \<times> val) list
       \<Rightarrow> error + (string \<times> val) list"
where
  "JSONObject_decode_data reg obj tdef =
     (case iterate obj of
        Inl e \<Rightarrow> Inl e
      | Inr kvs \<Rightarrow>
          (case decode_loop reg tdef kvs [] of
             Inl e \<Rightarrow> Inl e
           | Inr container \<Rightarrow> Inr (Dict container)))"
| "decode_loop reg tdef [] container = Inr container"
| "decode_loop reg tdef ((k, v) # rest) container =
     (case td_properties tdef of
        None \<Rightarrow> Inl KeyError
      | Some props \<Rightarrow>
          (case get_element props k (Some empty_typedef) of
             None \<Rightarrow> Inl TypeError
           | Some vtypedef \<Rightarrow>
               (case td_type vtypedef of
                  None \<Rightarrow> Inl KeyError
                | Some name \<Rightarrow>
                    (case get_type_class reg name of
                       Inl e \<Rightarrow> Inl e
                     | Inr vcls \<Rightarrow>
                         (case (case vcls of
                                  JSONObjectMetaschemaType \<Rightarrow>
                                    JSONObject_decode_data reg v vtypedef
                                | OtherType enc dec \<Rightarrow> dec v vtypedef) of
                            Inl e \<Rightarrow> Inl e
                          | Inr d \<Rightarrow> decode_loop reg tdef rest (assign container k d))))))"
  by pat_completeness auto
termination
  by (relation "measure (\<lambda>x. case x of
        Inl (_, obj, _) \<Rightarrow> 2 * size obj
      | Inr (_, _, kvs, _) \<Rightarrow> 2 * size_list (size_prod (\<lambda>_. 0) size) kvs + 1)")
    (auto simp: iterate_def split: val.splits)

subsection \<open>Values valid under a typedef\<close>

text \<open>
  The body of the decoding loop for one element: the class is resolved from the element's
  typedef and decodes the element.
\<close>

definition decode_element :: "registry \<Rightarrow> val \<Rightarrow> typedef_t \<Rightarrow> error + val" where
  "decode_element reg v vtypedef =
     (case td_type vtypedef of
        None \<Rightarrow> Inl KeyError
      | Some name \<Rightarrow>
          (case get_type_class reg name of
             Inl e \<Rightarrow> Inl e
           | Inr vcls \<Rightarrow>
               (case vcls of
                  JSONObjectMetaschemaType \<Rightarrow> JSONObject_decode_data reg v vtypedef
                | OtherType enc dec \<Rightarrow> dec v vtypedef)))"

text \<open>
  A value is valid under a typedef when the typedef names the value's type, the name is
  registered, and the value is valid for the class: for the JSON object, a dict (with
  distinct keys) each of whose elements has a typedef under \<open>'properties'\<close> and is valid
  under it; for another class, a value that the class encodes and decodes back.
  \<open>valid_container\<close> is validity for the JSON object class itself, \<open>valid_items\<close> that of
  the elements.
\<close>

fun valid_items ::
  "(val \<Rightarrow> typedef_t \<Rightarrow> bool) \<Rightarrow> (string \<times> typedef_t) list \<Rightarrow> (string \<times> val) list \<Rightarrow> bool" where
  "valid_items ok props [] = True"
| "valid_items ok props ((k, v) # rest) =
     ((case map_of props k of None \<Rightarrow> False | Some vtypedef \<Rightarrow> ok v vtypedef) \<and>
      valid_items ok props rest)"

lemma valid_items_cong [fundef_cong]:
  assumes "props = props'" "kvs = kvs'"
    and "\<And>k v t. (k, v) \<in> set kvs' \<Longrightarrow> ok v t = ok' v t"
  shows "valid_items ok props kvs = valid_items ok' props' kvs'"
proof -
  have "valid_items ok props' kvs' = valid_items ok' props' kvs'"
    using assms(3)
  proof (induction kvs')
    case Nil
    then show ?case by simp
  next
    case (Cons p rest)
    obtain k v where p: "p = (k, v)" by (cases p)
    have "\<And>t. ok v t = ok' v t" using Cons.prems[of k v] p by simp
    moreover have "valid_items ok props' rest = valid_items ok' props' rest"
    proof (rule Cons.IH)
      fix k' v' t assume "(k', v') \<in> set rest"
      then show "ok v' t = ok' v' t" using Cons.prems[of k' v' t] by simp
    qed
    ultimately show ?case using p by (simp split: option.splits)
  qed
  then show ?thesis using assms(1,2) by simp
qed

fun valid :: "registry \<Rightarrow> val \<Rightarrow> typedef_t \<Rightarrow> bool" where
  "valid reg v tdef =
     (case td_type tdef of
        None \<Rightarrow> False
      | Some name \<Rightarrow>
          type_name reg v = name \<and>
          (case classes reg name of
             None \<Rightarrow> False
           | Some JSONObjectMetaschemaType \<Rightarrow>
               (case v of
                  Dict kvs \<Rightarrow>
                    distinct (map fst kvs) \<and>
                    (case td_properties tdef of
                       None \<Rightarrow> kvs = []
                     | Some props \<Rightarrow> valid_items (valid reg) props kvs)
                | _ \<Rightarrow> False)
           | Some (OtherType enc dec) \<Rightarrow>
               (case enc v tdef of Inl _ \<Rightarrow> False | Inr e \<Rightarrow> dec e tdef = Inr v)))"

definition valid_container :: "registry \<Rightarrow> val \<Rightarrow> typedef_t \<Rightarrow> bool" where
  "valid_container reg v tdef =
     (case v of
        Dict kvs \<Rightarrow>
          distinct (map fst kvs) \<and>
          (case td_properties tdef of
             None \<Rightarrow> kvs = []
           | Some props \<Rightarrow> valid_items (valid reg) props kvs)
      | _ \<Rightarrow> False)"

text \<open>
  A registry for the examples below: the JSON object under \<open>'object'\<close>, and two scalar
  classes, \<open>'bytes'\<close> for strings and \<open>'int'\<close> for integers, that encode a value of their
  type as itself and refuse any other value.
\<close>

definition bytes_data :: "val \<Rightarrow> typedef_t \<Rightarrow> error + val" where
  "bytes_data v tdef = (case v of Str s \<Rightarrow> Inr (Str s) | _ \<Rightarrow> Inl TypeError)"

definition int_data :: "val \<Rightarrow> typedef_t \<Rightarrow> error + val" where
  "int_data v tdef = (case v of Num i \<Rightarrow> Inr (Num i) | _ \<Rightarrow> Inl TypeError)"

definition example_type_name :: "val \<Rightarrow> string" where
  "example_type_name v =
     (case v of Str s \<Rightarrow> ''bytes'' | Num i \<Rightarrow> ''int'' | Dict kvs \<Rightarrow> ''object'')"

definition example_registry :: registry where
  "example_registry =
     \<lparr>classes = [''object'' \<mapsto> JSONObjectMetaschemaType,
                 ''bytes'' \<mapsto> OtherType bytes_data bytes_data,
                 ''int'' \<mapsto> OtherType int_data int_data],
      type_name = example_type_name\<rparr>"

text \<open>A dict with nested dicts, three deep, and a typedef for it.\<close>

definition example_value :: val where
  "example_value =
     Dict [(''name'', Str ''x''),
           (''inner'', Dict [(''n'', Num 3), (''leaf'', Dict [(''s'', Str ''y'')])])]"

definition example_typedef :: typedef_t where
  "example_typedef =
     Typedef (Some ''object'')
       (Some [(''name'', Typedef (Some ''bytes'') None []),
              (''inner'', Typedef (Some ''object'')
                 (Some [(''n'', Typedef (Some ''int'') None []),
                        (''leaf'', Typedef (Some ''object'')
                           (Some [(''s'', Typedef (Some ''bytes'') None [])]) [])]) [])]) []"

section \<open>metaschema/properties/MetaschemaProperty.py\<close>

text \<open>
  What a user-provided function hands back to \<open>validate\<close>: \<open>None\<close>, a boolean, or a
  sequence of error messages.
\<close>

datatype pyret = RNone | RBool bool | RList "string list"

text \<open>
  The class attribute \<open>_validate\<close>: \<open>None\<close>, \<open>False\<close>, or a function of the validator, the
  property value, the instance and the schema. The validator is given by its \<open>is_type\<close>
  method.
\<close>

datatype ('i, 'v, 's) validate_attr =
    VNone
  | VFalse
  | VFun "('i \<Rightarrow> string \<Rightarrow> bool) \<Rightarrow> 'v \<Rightarrow> 'i \<Rightarrow> 's \<Rightarrow> pyret"

text \<open>
  A property class: \<open>types\<close>, and the attributes \<open>_encode\<close>, \<open>_validate\<close> and \<open>_compare\<close>
  (\<open>None\<close> when not set).
\<close>

record ('i, 'v, 's) metaschema_property =
  types :: "string list"
  encode_attr :: "('i \<Rightarrow> 'v option \<Rightarrow> 'v) option"
  validate_attr :: "('i, 'v, 's) validate_attr"
  compare_attr :: "('v \<Rightarrow> 'v \<Rightarrow> string list) option"

text \<open>\<open>encode\<close>: the class's encoder, or \<open>NotImplementedError\<close>.\<close>

definition encode ::
  "('i, 'v, 's) metaschema_property \<Rightarrow> 'i \<Rightarrow> 'v option \<Rightarrow> error + 'v" where
  "encode cls instance tdef =
     (case encode_attr cls of
        Some f \<Rightarrow> Inr (f instance tdef)
      | None \<Rightarrow> Inl NotImplementedError)"

text \<open>
  \<open>compare\<close> is a generator function: the model gives the list of what it yields. Its
  \<open>return cls._compare(cls, prop1, prop2)\<close> ends the generator, and the value returned is
  not yielded. \<open>str\<close> is Python's string conversion of a property value.
\<close>

definition compare ::
  "('v \<Rightarrow> string) \<Rightarrow> ('i, 'v, 's) metaschema_property \<Rightarrow> 'v \<Rightarrow> 'v \<Rightarrow> string list" where
  "compare str cls prop1 prop2 =
     (case compare_attr cls of
        Some f \<Rightarrow> []
      | None \<Rightarrow>
          if prop1 \<noteq> prop2 then [str prop1 @ '' is not equal to '' @ str prop2] else [])"

text \<open>
  \<open>x or ()\<close> followed by \<open>for e in errors\<close>: a false value gives no error, a sequence its
  elements, and \<open>True\<close> cannot be iterated.
\<close>

definition errors_of :: "pyret \<Rightarrow> error + string list" where
  "errors_of r =
     (case r of
        RNone \<Rightarrow> Inr []
      | RBool False \<Rightarrow> Inr []
      | RBool True \<Rightarrow> Inl TypeError
      | RList es \<Rightarrow> Inr es)"

text \<open>
  \<open>validate\<close> is a generator: the model gives the list of the messages it yields, or the
  exception it raises before the first one.
\<close>

definition validate ::
  "('v \<Rightarrow> string) \<Rightarrow> ('i, 'v, 's) metaschema_property \<Rightarrow> ('i \<Rightarrow> string \<Rightarrow> bool) \<Rightarrow> 'v
     \<Rightarrow> 'i \<Rightarrow> 's \<Rightarrow> error + string list" where
  "validate str cls is_type v instance schema =
     (case validate_attr cls of
        VFalse \<Rightarrow> Inr []
      | VFun f \<Rightarrow> errors_of (f is_type v instance schema)
      | VNone \<Rightarrow>
          if \<not> list_ex (is_type instance) (types cls) then Inr []
          else
            (case encode cls instance (Some v) of
               Inl e \<Rightarrow> Inl e
             | Inr x \<Rightarrow> Inr (compare str cls x v)))"

text \<open>
  Example classes: one that encodes a string instance as its length, with the default
  comparison, and the same class with validation switched off.
\<close>

definition length_property :: "(string, nat, unit) metaschema_property" where
  "length_property =
     \<lparr>types = [''string''], encode_attr = Some (\<lambda>instance tdef. length instance),
      validate_attr = VNone, compare_attr = None\<rparr>"

definition unary :: "nat \<Rightarrow> string" where
  "unary n = replicate n (CHR ''|'')"

definition is_string :: "string \<Rightarrow> string \<Rightarrow> bool" where
  "is_string instance t = (t = ''string'')"

section \<open>communication: the Comm contract\<close>

text \<open>
  Modelled from the spec: no Comm implementation is among the sources, only the tests of
  \<open>FileComm\<close> and \<open>RMQAsyncComm\<close>. The spec (3, 4.1) gives the contract that every
  implementation follows: \<open>send(msg)\<close> returns a success flag and \<open>recv()\<close> a flag and a
  message; messages arrive in the order sent; once closed, a comm sends and receives
  nothing; sending or receiving the EOF sentinel closes the comm and returns \<open>False\<close>;
  \<open>send_nolimit\<close> and \<open>recv_nolimit\<close> carry a payload over the size limit in chunks and
  put it together again. A \<open>link\<close> is a sending comm, its receiving peer and the transport
  between them: what is in flight, whether each end is closed, the EOF sentinel both ends
  agree on, and the size limit of one message. A chunked payload travels as its size
  followed by its chunks.
\<close>

datatype packet = Whole string | Size nat | Chunk string

record link =
  in_flight :: "packet list"
  send_is_closed :: bool
  recv_is_closed :: bool
  link_eof_msg :: string
  maxMsgSize :: nat

definition send :: "link \<Rightarrow> string \<Rightarrow> bool \<times> link" where
  "send l msg =
     (if send_is_closed l then (False, l)
      else if msg = link_eof_msg l
        then (False, l\<lparr>in_flight := in_flight l @ [Whole msg], send_is_closed := True\<rparr>)
      else if maxMsgSize l < length msg then (False, l)
      else (True, l\<lparr>in_flight := in_flight l @ [Whole msg]\<rparr>))"

definition recv :: "link \<Rightarrow> (bool \<times> string) \<times> link" where
  "recv l =
     (if recv_is_closed l then ((False, ''''), l)
      else
        (case in_flight l of
           Whole msg # rest \<Rightarrow>
             if msg = link_eof_msg l
             then ((False, msg), l\<lparr>in_flight := rest, recv_is_closed := True\<rparr>)
             else ((True, msg), l\<lparr>in_flight := rest\<rparr>)
         | _ \<Rightarrow> ((False, ''''), l)))"

function chunks :: "nat \<Rightarrow> string \<Rightarrow> string list" where
  "chunks n s = (if n = 0 \<or> s = [] then [] else take n s # chunks n (drop n s))"
  by pat_completeness auto
termination
  by (relation "measure (\<lambda>(n, s). length s)") auto

fun reassemble :: "nat \<Rightarrow> packet list \<Rightarrow> (string \<times> packet list) option" where
  "reassemble 0 rest = Some ('''', rest)"
| "reassemble n (Chunk c # rest) =
     (if c \<noteq> [] \<and> length c \<le> n
      then map_option (\<lambda>(s, r). (c @ s, r)) (reassemble (n - length c) rest)
      else None)"
| "reassemble n rest = None"

definition send_nolimit :: "link \<Rightarrow> string \<Rightarrow> bool \<times> link" where
  "send_nolimit l msg =
     (if msg = link_eof_msg l then send l msg
      else if send_is_closed l \<or> maxMsgSize l = 0 then (False, l)
      else (True, l\<lparr>in_flight :=
              in_flight l @ Size (length msg) # map Chunk (chunks (maxMsgSize l) msg)\<rparr>))"

definition recv_nolimit :: "link \<Rightarrow> (bool \<times> string) \<times> link" where
  "recv_nolimit l =
     (if recv_is_closed l then ((False, ''''), l)
      else
        (case in_flight l of
           Size n # rest \<Rightarrow>
             (case reassemble n rest of
                Some (msg, rest') \<Rightarrow> ((True, msg), l\<lparr>in_flight := rest'\<rparr>)
              | None \<Rightarrow> ((False, ''''), l))
         | _ \<Rightarrow> recv l))"

text \<open>A link over a file, both ends open, for the example below.\<close>

definition file_link :: link where
  "file_link = \<lparr>in_flight = [], send_is_closed = False, recv_is_closed = False,
     link_eof_msg = ''EOF!!!'', maxMsgSize = 4\<rparr>"

section \<open>Properties of the ServerRequestDriver\<close>

subsection \<open>Steps of the pump\<close>

lemma run_loop_append:
  "run_loop ini na st (xs @ ys) =
     (case run_loop ini na st xs of Inl e \<Rightarrow> Inl e | Inr st' \<Rightarrow> run_loop ini na st' ys)"
  by (induction xs arbitrary: st) (auto split: sum.splits)

lemma balance_append: "balance ini (xs @ ys) = balance ini xs + balance ini ys"
  by (induction xs rule: balance.induct) auto

lemma signon_step:
  assumes "running st"
  shows "run_step ini na st (Recv h ini) =
           Inr (st\<lparr>last_header := Some h, nclients := nclients st + 1\<rparr>)"
  using assms by (simp add: run_step_def on_message_def ConnectionDriver_on_message_def)

lemma signoff_step_pos:
  assumes "running st" "nclients st \<noteq> 1"
  shows "run_step ini na st RecvEOF = Inr (st\<lparr>nclients := nclients st - 1\<rparr>)"
  using assms by (simp add: run_step_def on_eof_def Let_def)

lemma on_eof_last:
  assumes "nclients st = 1" "last_header st = Some h"
  shows "on_eof addr st =
           Inr (RFalse, st\<lparr>nclients := 0,
                  last_header := Some (h(''response_address'' \<mapsto> ''EOF'')),
                  sent := sent st @ [(eof_msg st, no_kwargs)], running := False\<rparr>)"
  using assms
  by (simp add: on_eof_def Let_def ConnectionDriver_on_eof_def send_message_def
      response_address_def ConnectionDriver_send_message_def)

lemma signoff_step_last:
  assumes "running st" "nclients st = 1" "last_header st = Some h"
  shows "run_step ini na st RecvEOF =
           Inr (st\<lparr>nclients := 0, last_header := Some (h(''response_address'' \<mapsto> ''EOF'')),
                  sent := sent st @ [(eof_msg st, no_kwargs)], running := False\<rparr>)"
  using assms by (simp add: run_step_def on_eof_last)

lemma send_message_nclients:
  assumes "send_message addr st msg kwargs = Inr (flag, st')"
  shows "nclients st' = nclients st"
  using assms
  by (auto simp: send_message_def ConnectionDriver_send_message_def Let_def
      split: sum.splits if_splits)

subsection \<open>While clients remain, nothing is forwarded\<close>

lemma positive_phase:
  assumes "signs_only ini evs" "counting st"
    and "\<forall>k. 0 < k \<and> k \<le> length evs \<longrightarrow> 0 < nclients st + balance ini (take k evs)"
  shows "\<exists>st'. run_loop ini na st evs = Inr st' \<and> counting st' \<and>
           nclients st' = nclients st + balance ini evs \<and> sent st' = sent st \<and>
           eof_msg st' = eof_msg st \<and> response_drivers st' = response_drivers st"
  using assms
proof (induction evs arbitrary: st)
  case Nil
  then show ?case by simp
next
  case (Cons e evs)
  have pos1: "0 < nclients st + balance ini [e]"
    using Cons.prems(3)[rule_format, of 1] by simp
  have rest: "\<forall>k. 0 < k \<and> k \<le> length evs \<longrightarrow>
      0 < (nclients st + balance ini [e]) + balance ini (take k evs)"
  proof (intro allI impI)
    fix k assume k: "0 < k \<and> k \<le> length evs"
    have "0 < nclients st + balance ini (take (Suc k) (e # evs))"
      using Cons.prems(3)[rule_format, of "Suc k"] k by simp
    moreover have "balance ini (take (Suc k) (e # evs)) =
        balance ini [e] + balance ini (take k evs)"
      using balance_append[of ini "[e]" "take k evs"] by simp
    ultimately show "0 < (nclients st + balance ini [e]) + balance ini (take k evs)"
      by simp
  qed
  have so: "signs_only ini evs" using Cons.prems(1) by (simp add: signs_only_def)
  have bal: "balance ini (e # evs) = balance ini [e] + balance ini evs"
    using balance_append[of ini "[e]" evs] by simp
  show ?case
  proof (cases e)
    case (Recv h m)
    then have m: "m = ini" using Cons.prems(1) by (simp add: signs_only_def)
    let ?st1 = "st\<lparr>last_header := Some h, nclients := nclients st + 1\<rparr>"
    have step: "run_step ini na st e = Inr ?st1"
      using signon_step Cons.prems(2) Recv m by (simp add: counting_def)
    have c1: "counting ?st1" using Cons.prems(2) by (simp add: counting_def)
    have n1: "nclients ?st1 = nclients st + balance ini [e]" using Recv m by simp
    from Cons.IH[OF so c1] rest n1
    obtain st' where "run_loop ini na ?st1 evs = Inr st'" "counting st'"
      "nclients st' = nclients ?st1 + balance ini evs" "sent st' = sent ?st1"
      "eof_msg st' = eof_msg ?st1" "response_drivers st' = response_drivers ?st1"
      by auto
    then show ?thesis using step n1 bal by simp
  next
    case RecvEOF
    let ?st1 = "st\<lparr>nclients := nclients st - 1\<rparr>"
    have ne: "nclients st \<noteq> 1" using pos1 RecvEOF by simp
    have step: "run_step ini na st e = Inr ?st1"
      using signoff_step_pos Cons.prems(2) RecvEOF ne by (simp add: counting_def)
    have c1: "counting ?st1" using Cons.prems(2) pos1 RecvEOF by (simp add: counting_def)
    have n1: "nclients ?st1 = nclients st + balance ini [e]" using RecvEOF by simp
    from Cons.IH[OF so c1] rest n1
    obtain st' where "run_loop ini na ?st1 evs = Inr st'" "counting st'"
      "nclients st' = nclients ?st1 + balance ini evs" "sent st' = sent ?st1"
      "eof_msg st' = eof_msg ?st1" "response_drivers st' = response_drivers ?st1"
      by auto
    then show ?thesis using step n1 bal by simp
  qed
qed

lemma counting_init: "counting (init_driver c eof)"
  by (simp add: counting_def init_driver_def)

lemma prefix_run:
  assumes so: "signs_only ini evs" and cr: "clients_remain ini evs" and k: "k < length evs"
  shows "\<exists>st. run_loop ini na (init_driver c eof) (take k evs) = Inr st \<and> counting st \<and>
           nclients st = balance ini (take k evs) \<and> sent st = [] \<and> eof_msg st = eof \<and>
           response_drivers st = []"
proof -
  let ?p = "take k evs"
  have so': "signs_only ini ?p"
    using so by (auto simp: signs_only_def list_all_iff dest: in_set_takeD)
  have pos: "\<forall>j. 0 < j \<and> j \<le> length ?p \<longrightarrow>
               0 < nclients (init_driver c eof) + balance ini (take j ?p)"
  proof (intro allI impI)
    fix j assume j: "0 < j \<and> j \<le> length ?p"
    then have "j \<in> {1..<length evs}" using k by auto
    then have "0 < balance ini (take j evs)" using cr by (simp add: clients_remain_def)
    moreover have "j \<le> k" using j k by simp
    then have "take j ?p = take j evs" by (simp add: min_def)
    ultimately show "0 < nclients (init_driver c eof) + balance ini (take j ?p)"
      by (simp add: init_driver_def)
  qed
  from positive_phase[OF so' counting_init pos, of na]
  show ?thesis by (auto simp: init_driver_def)
qed

subsection \<open>The claims about the driver\<close>

text \<open>
  C2 (amended). For every sequence of sign-ons and sign-offs that has as many sign-offs as
  sign-ons, is not empty, and in which a client remains signed on after every proper
  non-empty prefix (so the count reaches 0 only with the last event), processed from a new
  driver: the run ends with \<open>nclients = 0\<close> and the EOF forwarded exactly once, by the last
  sign-off; after every proper prefix no EOF has been forwarded and, when the prefix is
  not empty, \<open>nclients\<close> is positive.
\<close>

theorem eof_forwarded_once:
  assumes so: "signs_only ini evs" and ne: "evs \<noteq> []" and bal: "balance ini evs = 0"
    and cr: "clients_remain ini evs"
  shows "(\<exists>st. run_loop ini na (init_driver c eof) evs = Inr st \<and> nclients st = 0 \<and>
            eofs_forwarded st = 1 \<and> last evs = RecvEOF) \<and>
         (\<forall>k. k < length evs \<longrightarrow>
            (\<exists>st. run_loop ini na (init_driver c eof) (take k evs) = Inr st \<and>
               eofs_forwarded st = 0 \<and> (0 < k \<longrightarrow> 0 < nclients st)))"
proof (intro conjI allI impI)
  fix k assume k: "k < length evs"
  from prefix_run[OF so cr k, of na c eof]
  obtain st where st: "run_loop ini na (init_driver c eof) (take k evs) = Inr st"
    "nclients st = balance ini (take k evs)" "sent st = []"
    by auto
  have "0 < k \<longrightarrow> 0 < nclients st"
    using cr k st(2) by (simp add: clients_remain_def)
  then show "\<exists>st. run_loop ini na (init_driver c eof) (take k evs) = Inr st \<and>
               eofs_forwarded st = 0 \<and> (0 < k \<longrightarrow> 0 < nclients st)"
    using st by (auto simp: eofs_forwarded_def)
next
  let ?p = "butlast evs" and ?e = "last evs"
  have split: "evs = ?p @ [?e]" using ne by simp
  have k: "length ?p < length evs" using ne by simp
  have tk: "take (length ?p) evs = ?p" by (simp add: butlast_conv_take)
  from prefix_run[OF so cr k, of na c eof] tk
  obtain st where st: "run_loop ini na (init_driver c eof) ?p = Inr st" "counting st"
    "nclients st = balance ini ?p" "sent st = []" "eof_msg st = eof"
    by auto
  have b: "balance ini ?p + balance ini [?e] = 0"
    using bal balance_append[of ini ?p "[?e]"] split by simp
  have nonneg: "0 \<le> balance ini ?p"
  proof (cases "?p = []")
    case True then show ?thesis by simp
  next
    case False
    then have "length ?p \<in> {1..<length evs}" using k by (cases ?p) auto
    then have "0 < balance ini (take (length ?p) evs)"
      using cr unfolding clients_remain_def by blast
    then show ?thesis using tk by simp
  qed
  have e_so: "case ?e of Recv h m \<Rightarrow> m = ini | RecvEOF \<Rightarrow> True"
    using so ne by (auto simp: signs_only_def list_all_iff)
  have e: "?e = RecvEOF"
  proof (cases ?e)
    case (Recv h m)
    then have "balance ini [?e] = 1" using e_so by simp
    then show ?thesis using b nonneg by simp
  qed simp
  then have n1: "nclients st = 1" using b st(3) by simp
  then obtain h where h: "last_header st = Some h" using st(2) by (auto simp: counting_def)
  have "run_loop ini na (init_driver c eof) evs =
          (case run_loop ini na (init_driver c eof) ?p of Inl x \<Rightarrow> Inl x
           | Inr st' \<Rightarrow> run_loop ini na st' [?e])"
    using run_loop_append[of ini na "init_driver c eof" ?p "[?e]"] split by simp
  also have "\<dots> = run_step ini na st RecvEOF"
    using st(1) e by (simp split: sum.splits)
  also have "\<dots> = Inr (st\<lparr>nclients := 0,
        last_header := Some (h(''response_address'' \<mapsto> ''EOF'')),
        sent := sent st @ [(eof_msg st, no_kwargs)], running := False\<rparr>)"
    using signoff_step_last[of st h ini na] st(2) n1 h by (simp add: counting_def)
  finally show "\<exists>st. run_loop ini na (init_driver c eof) evs = Inr st \<and> nclients st = 0 \<and>
            eofs_forwarded st = 1 \<and> last evs = RecvEOF"
    using st(4) e by (simp add: eofs_forwarded_def)
qed

lemma example_signs_only:
  "signs_only ''CIS_BEGIN_CLIENT'' [sign_on, sign_on, RecvEOF, sign_on, RecvEOF, RecvEOF]"
  by (simp add: signs_only_def sign_on_def)

lemma example_balance:
  "balance ''CIS_BEGIN_CLIENT'' [sign_on, sign_on, RecvEOF, sign_on, RecvEOF, RecvEOF] = 0"
  by (simp add: sign_on_def)

lemma example_clients_remain:
  "clients_remain ''CIS_BEGIN_CLIENT'' [sign_on, sign_on, RecvEOF, sign_on, RecvEOF, RecvEOF]"
  unfolding clients_remain_def
proof
  fix k :: nat
  assume "k \<in> {1..<length [sign_on, sign_on, RecvEOF, sign_on, RecvEOF, RecvEOF]}"
  then have "k = 1 \<or> k = 2 \<or> k = 3 \<or> k = 4 \<or> k = 5" by auto
  then show "0 < balance ''CIS_BEGIN_CLIENT''
      (take k [sign_on, sign_on, RecvEOF, sign_on, RecvEOF, RecvEOF])"
    by (elim disjE) (simp_all add: sign_on_def)
qed

theorem eof_forwarded_once_witness:
  "signs_only ''CIS_BEGIN_CLIENT'' [sign_on, sign_on, RecvEOF, sign_on, RecvEOF, RecvEOF] \<and>
   balance ''CIS_BEGIN_CLIENT'' [sign_on, sign_on, RecvEOF, sign_on, RecvEOF, RecvEOF] = 0 \<and>
   clients_remain ''CIS_BEGIN_CLIENT''
     [sign_on, sign_on, RecvEOF, sign_on, RecvEOF, RecvEOF] \<and>
   (\<exists>st. run_loop ''CIS_BEGIN_CLIENT'' (\<lambda>n. ''R'') (init_driver None ''EOF!!!'')
            [sign_on, sign_on, RecvEOF, sign_on, RecvEOF, RecvEOF] = Inr st \<and>
         nclients st = 0 \<and> eofs_forwarded st = 1) \<and>
   (\<exists>st. run_loop ''CIS_BEGIN_CLIENT'' (\<lambda>n. ''R'') (init_driver None ''EOF!!!'')
            (take 5 [sign_on, sign_on, RecvEOF, sign_on, RecvEOF, RecvEOF]) = Inr st \<and>
         eofs_forwarded st = 0 \<and> 0 < nclients st)"
proof -
  let ?evs = "[sign_on, sign_on, RecvEOF, sign_on, RecvEOF, RecvEOF]"
  note t = eof_forwarded_once[OF example_signs_only _ example_balance example_clients_remain,
      of "\<lambda>n. ''R''" None "''EOF!!!''"]
  have a: "\<exists>st. run_loop ''CIS_BEGIN_CLIENT'' (\<lambda>n. ''R'') (init_driver None ''EOF!!!'') ?evs
             = Inr st \<and> nclients st = 0 \<and> eofs_forwarded st = 1"
    using t by blast
  have "\<forall>k. k < length ?evs \<longrightarrow>
            (\<exists>st. run_loop ''CIS_BEGIN_CLIENT'' (\<lambda>n. ''R'') (init_driver None ''EOF!!!'')
                (take k ?evs) = Inr st \<and> eofs_forwarded st = 0 \<and> (0 < k \<longrightarrow> 0 < nclients st))"
    using t by blast
  from this[rule_format, of 5]
  have b: "\<exists>st. run_loop ''CIS_BEGIN_CLIENT'' (\<lambda>n. ''R'') (init_driver None ''EOF!!!'')
             (take 5 ?evs) = Inr st \<and> eofs_forwarded st = 0 \<and> 0 < nclients st"
    by simp
  show ?thesis using a b example_signs_only example_balance example_clients_remain by blast
qed

text \<open>
  C2 as stated fails for interleaved sign-ons and sign-offs: with two sign-ons and two
  sign-offs in the order on, off, on, off, the EOF has been forwarded after the first
  sign-off, before the second one arrives.
\<close>

theorem eof_forwarded_early:
  "signs_only ''CIS_BEGIN_CLIENT'' [sign_on, RecvEOF, sign_on, RecvEOF] \<and>
   balance ''CIS_BEGIN_CLIENT'' [sign_on, RecvEOF, sign_on, RecvEOF] = 0 \<and>
   map_sum id (\<lambda>st. (nclients st, eofs_forwarded st))
     (run_loop ''CIS_BEGIN_CLIENT'' (\<lambda>n. ''R'') (init_driver None ''EOF!!!'')
        (take 2 [sign_on, RecvEOF, sign_on, RecvEOF])) = Inr (0, 1)"
  by (simp add: signs_only_def sign_on_def run_step_def on_message_def on_eof_def
      ConnectionDriver_on_message_def ConnectionDriver_on_eof_def send_message_def
      response_address_def ConnectionDriver_send_message_def init_driver_def
      eofs_forwarded_def no_kwargs_def)

text \<open>
  C3 (amended). \<open>on_message\<close> never lowers \<open>nclients\<close>, and \<open>on_eof\<close>, whenever it returns,
  has lowered it by exactly one: \<open>nclients \<ge> 0\<close> is kept by every \<open>on_message\<close> step and by
  an \<open>on_eof\<close> step that starts with at least one client. A sign-off that arrives at
  \<open>nclients = 0\<close> does not fail: \<open>on_eof\<close> returns the empty message with \<open>nclients = -1\<close>
  and forwards nothing.
\<close>

theorem nclients_steps:
  "nclients st \<le> nclients (snd (on_message ini st msg)) \<and>
   (on_eof addr st = Inr (r, st') \<longrightarrow> nclients st' = nclients st - 1) \<and>
   (1 \<le> nclients st \<longrightarrow> on_eof addr st = Inr (r, st') \<longrightarrow> 0 \<le> nclients st') \<and>
   (nclients st = 0 \<longrightarrow> on_eof addr st = Inr (RStr '''', st\<lparr>nclients := - 1\<rparr>))"
proof -
  have dec: "nclients st' = nclients st - 1" if "on_eof addr st = Inr (r, st')"
  proof (cases "nclients st = 1")
    case True
    with that obtain h where "last_header st = Some h"
      by (auto simp: on_eof_def Let_def split: option.splits)
    with True that show ?thesis by (auto simp: on_eof_last)
  next
    case False
    with that show ?thesis by (auto simp: on_eof_def Let_def)
  qed
  have "nclients st \<le> nclients (snd (on_message ini st msg))"
    by (simp add: on_message_def ConnectionDriver_on_message_def)
  moreover have "nclients st = 0 \<longrightarrow> on_eof addr st = Inr (RStr '''', st\<lparr>nclients := - 1\<rparr>)"
    by (simp add: on_eof_def Let_def)
  ultimately show ?thesis using dec by auto
qed

theorem nclients_steps_witness:
  "nclients serving \<le> nclients (snd (on_message ''CIS_BEGIN_CLIENT'' serving ''hello'')) \<and>
   (\<exists>r st'. on_eof ''R1'' serving = Inr (r, st') \<and> nclients st' = 0) \<and>
   on_eof ''R1'' (serving\<lparr>nclients := 0\<rparr>) = Inr (RStr '''', serving\<lparr>nclients := - 1\<rparr>)"
proof -
  have n: "nclients serving = 1" by (simp add: serving_def init_driver_def)
  have h: "last_header serving = Some [''id'' \<mapsto> ''r1'', ''response_address'' \<mapsto> ''A1'']"
    by (simp add: serving_def init_driver_def)
  from on_eof_last[OF n h, of "''R1''"]
  obtain r st' where e: "on_eof ''R1'' serving = Inr (r, st')" by blast
  have z: "nclients (serving\<lparr>nclients := 0\<rparr>) = 0" by simp
  have a: "nclients serving \<le> nclients (snd (on_message ''CIS_BEGIN_CLIENT'' serving ''hello''))"
    using nclients_steps[of serving "''CIS_BEGIN_CLIENT''" "''hello''"] by blast
  have b: "nclients st' = 0"
    using nclients_steps[of serving "''CIS_BEGIN_CLIENT''" "''hello''" "''R1''" r st'] e n
    by simp
  have c: "on_eof ''R1'' (serving\<lparr>nclients := 0\<rparr>) =
      Inr (RStr '''', serving\<lparr>nclients := - 1\<rparr>)"
    using nclients_steps[of "serving\<lparr>nclients := 0\<rparr>" "''CIS_BEGIN_CLIENT''" "''hello''"
        "''R1''"] z
    by simp
  show ?thesis using a b c e by blast
qed

text \<open>
  C3 as stated fails: a sign-off received by a new driver, with no client signed on, is
  not an error. \<open>on_eof\<close> returns normally and leaves \<open>nclients = -1\<close>.
\<close>

theorem nclients_underflow:
  "on_eof ''R1'' (init_driver None ''EOF!!!'') =
     Inr (RStr '''', (init_driver None ''EOF!!!'')\<lparr>nclients := - 1\<rparr>) \<and>
   \<not> 0 \<le> nclients ((init_driver None ''EOF!!!'')\<lparr>nclients := - 1\<rparr>)"
  by (simp add: on_eof_def Let_def init_driver_def)

text \<open>
  C5 (amended). When the last header has a \<open>response_address\<close> other than \<open>'EOF'\<close> and an
  \<open>id\<close>, and the driver's comm is open, \<open>send_message\<close> creates and starts exactly one
  response driver, bound to that address, to the driver's comm class and to the request
  id, appends it to \<open>response_drivers\<close>, and hands the message to the base class with
  \<open>send_header\<close> and the header fields \<open>response_address\<close> (the new driver's own address)
  and \<open>id\<close> (the request id) filled in where the caller had not set them. When the
  \<open>response_address\<close> is \<open>'EOF'\<close>, the call is the base class's, unchanged.
\<close>

theorem send_message_starts_response_driver:
  "(last_header st = Some h \<and> h ''response_address'' = Some ra \<and> h ''id'' = Some rid \<and>
    ra \<noteq> ''EOF'' \<and> is_comm_open st \<longrightarrow>
      (\<exists>flag st'. send_message addr st msg kwargs = Inr (flag, st') \<and>
         response_drivers st' = response_drivers st @
           [\<lparr>rd_response_address = ra, rd_comm = comm st, rd_msg_id = rid,
             model_response_address = addr, rd_started = True\<rparr>] \<and>
         sent st' = sent st @
           [(msg, kwargs\<lparr>
              send_header := Some (case send_header kwargs of None \<Rightarrow> True | Some b \<Rightarrow> b),
              header_kwargs := Some
                (setdefault
                   (setdefault (case header_kwargs kwargs of None \<Rightarrow> Map.empty | Some hk \<Rightarrow> hk)
                      ''response_address'' addr)
                   ''id'' rid)\<rparr>)] \<and>
         nclients st' = nclients st \<and> last_header st' = last_header st)) \<and>
   (response_address st = Inr ''EOF'' \<longrightarrow>
      send_message addr st msg kwargs = Inr (ConnectionDriver_send_message st msg kwargs))"
  by (simp add: send_message_def response_address_def request_id_def Let_def
      ConnectionDriver_send_message_def start_def ServerResponseDriver_def)

theorem send_message_starts_response_driver_witness:
  "(\<exists>flag st'. send_message ''R1'' serving ''hello'' no_kwargs = Inr (flag, st') \<and>
      response_drivers st' =
        [\<lparr>rd_response_address = ''A1'', rd_comm = Some ''ZMQComm'', rd_msg_id = ''r1'',
          model_response_address = ''R1'', rd_started = True\<rparr>] \<and>
      sent st' =
        [(''hello'', \<lparr>send_header = Some True,
            header_kwargs = Some [''response_address'' \<mapsto> ''R1'', ''id'' \<mapsto> ''r1'']\<rparr>)]) \<and>
   send_message ''R1''
       (serving\<lparr>last_header := Some [''id'' \<mapsto> ''r1'', ''response_address'' \<mapsto> ''EOF'']\<rparr>)
       ''EOF!!!'' no_kwargs =
     Inr (False,
       serving\<lparr>last_header := Some [''id'' \<mapsto> ''r1'', ''response_address'' \<mapsto> ''EOF''],
         sent := [(''EOF!!!'', no_kwargs)]\<rparr>)"
proof -
  let ?h = "[''id'' \<mapsto> ''r1'', ''response_address'' \<mapsto> ''A1'']"
  let ?e = "[''id'' \<mapsto> ''r1'', ''response_address'' \<mapsto> ''EOF'']"
  have pre: "last_header serving = Some ?h \<and> ?h ''response_address'' = Some ''A1'' \<and>
      ?h ''id'' = Some ''r1'' \<and> ''A1'' \<noteq> ''EOF'' \<and> is_comm_open serving"
    by (simp add: serving_def init_driver_def)
  from send_message_starts_response_driver[of serving ?h "''A1''" "''r1''" "''R1''"
      "''hello''" no_kwargs] pre
  obtain flag st' where s: "send_message ''R1'' serving ''hello'' no_kwargs = Inr (flag, st')"
    "response_drivers st' = response_drivers serving @
           [\<lparr>rd_response_address = ''A1'', rd_comm = comm serving, rd_msg_id = ''r1'',
             model_response_address = ''R1'', rd_started = True\<rparr>]"
    "sent st' = sent serving @
           [(''hello'', no_kwargs\<lparr>
              send_header := Some (case send_header no_kwargs of None \<Rightarrow> True | Some b \<Rightarrow> b),
              header_kwargs := Some
                (setdefault
                   (setdefault
                      (case header_kwargs no_kwargs of None \<Rightarrow> Map.empty | Some hk \<Rightarrow> hk)
                      ''response_address'' ''R1'')
                   ''id'' ''r1'')\<rparr>)]"
    by blast
  have a: "response_drivers st' =
        [\<lparr>rd_response_address = ''A1'', rd_comm = Some ''ZMQComm'', rd_msg_id = ''r1'',
          model_response_address = ''R1'', rd_started = True\<rparr>]"
    using s(2) by (simp add: serving_def init_driver_def)
  have b: "sent st' =
        [(''hello'', \<lparr>send_header = Some True,
            header_kwargs = Some [''response_address'' \<mapsto> ''R1'', ''id'' \<mapsto> ''r1'']\<rparr>)]"
    using s(3) by (simp add: serving_def init_driver_def no_kwargs_def setdefault_def)
  have eof: "response_address (serving\<lparr>last_header := Some ?e\<rparr>) = Inr ''EOF''"
    by (simp add: response_address_def)
  have c: "send_message ''R1'' (serving\<lparr>last_header := Some ?e\<rparr>) ''EOF!!!'' no_kwargs =
     Inr (False, serving\<lparr>last_header := Some ?e, sent := [(''EOF!!!'', no_kwargs)]\<rparr>)"
    using send_message_starts_response_driver[of "serving\<lparr>last_header := Some ?e\<rparr>"
        ?e "''EOF''" "''r1''" "''R1''" "''EOF!!!''" no_kwargs] eof
    by (simp add: ConnectionDriver_send_message_def serving_def init_driver_def)
  show ?thesis using s(1) a b c by blast
qed

text \<open>
  C5 as stated fails: with a \<open>response_address\<close> other than \<open>'EOF'\<close> but the comm not
  open, no response driver is created and nothing is sent.
\<close>

theorem no_response_driver_when_closed:
  "response_address (serving\<lparr>is_comm_open := False\<rparr>) = Inr ''A1'' \<and>
   send_message ''R1'' (serving\<lparr>is_comm_open := False\<rparr>) ''hello'' no_kwargs =
     Inr (False, serving\<lparr>is_comm_open := False\<rparr>) \<and>
   response_drivers (serving\<lparr>is_comm_open := False\<rparr>) = []"
  by (simp add: send_message_def response_address_def serving_def init_driver_def)

text \<open>
  C6. \<open>on_message\<close> returns every message but the sign-on sentinel as it is and leaves the
  driver unchanged; for the sentinel it returns the empty message and adds exactly one to
  \<open>nclients\<close>. The pump hands nothing to the output comm for a sign-on.
\<close>

theorem on_message_sign_on:
  "on_message ini st msg =
     (if msg = ini then ('''', st\<lparr>nclients := nclients st + 1\<rparr>) else (msg, st)) \<and>
   map_sum id sent (run_step ini na st (Recv h ini)) = Inr (sent st)"
  by (simp add: on_message_def ConnectionDriver_on_message_def run_step_def)

theorem on_message_sign_on_witness:
  "on_message ''CIS_BEGIN_CLIENT'' serving ''CIS_BEGIN_CLIENT'' =
     ('''', serving\<lparr>nclients := 2\<rparr>) \<and>
   on_message ''CIS_BEGIN_CLIENT'' serving ''hello'' = (''hello'', serving)"
  using on_message_sign_on[of "''CIS_BEGIN_CLIENT''" serving "''CIS_BEGIN_CLIENT''"]
    on_message_sign_on[of "''CIS_BEGIN_CLIENT''" serving "''hello''"]
  by (simp add: serving_def init_driver_def)

text \<open>
  C9. When \<open>on_eof\<close> brings \<open>nclients\<close> to 0 (and a header has been received), it calls the
  base \<open>on_eof\<close> on the driver whose last header has \<open>response_address = 'EOF'\<close>; the EOF
  sentinel is then handed to the output comm with the caller's keyword arguments, no
  response driver is created, and \<open>response_drivers\<close> is unchanged.
\<close>

theorem on_eof_no_response_driver:
  assumes "nclients st = 1" "last_header st = Some h"
  shows "on_eof addr st =
           ConnectionDriver_on_eof (send_message addr)
             (st\<lparr>nclients := 0, last_header := Some (h(''response_address'' \<mapsto> ''EOF''))\<rparr>) \<and>
         (\<exists>r st'. on_eof addr st = Inr (r, st') \<and>
            response_address st' = Inr ''EOF'' \<and>
            response_drivers st' = response_drivers st \<and>
            sent st' = sent st @ [(eof_msg st, no_kwargs)] \<and> nclients st' = 0)"
  using assms
  by (simp add: on_eof_def Let_def ConnectionDriver_on_eof_def send_message_def
      response_address_def ConnectionDriver_send_message_def)

theorem on_eof_no_response_driver_witness:
  "nclients serving = 1 \<and>
   (\<exists>r st'. on_eof ''R1'' serving = Inr (r, st') \<and> response_address st' = Inr ''EOF'' \<and>
      response_drivers st' = [] \<and> sent st' = [(''EOF!!!'', no_kwargs)] \<and> nclients st' = 0)"
proof -
  have n: "nclients serving = 1" by (simp add: serving_def init_driver_def)
  have h: "last_header serving = Some [''id'' \<mapsto> ''r1'', ''response_address'' \<mapsto> ''A1'']"
    by (simp add: serving_def init_driver_def)
  from on_eof_no_response_driver[OF n h, of "''R1''"]
  obtain r st' where s: "on_eof ''R1'' serving = Inr (r, st')"
    "response_address st' = Inr ''EOF''" "response_drivers st' = response_drivers serving"
    "sent st' = sent serving @ [(eof_msg serving, no_kwargs)]" "nclients st' = 0"
    by blast
  have "response_drivers st' = []" "sent st' = [(''EOF!!!'', no_kwargs)]"
    using s(3,4) by (simp_all add: serving_def init_driver_def)
  then show ?thesis using n s by blast
qed

text \<open>
  C10. With a \<open>response_address\<close> other than \<open>'EOF'\<close> and the comm not open,
  \<open>send_message\<close> returns \<open>False\<close> and the driver is as before: no response driver is
  created or appended, and nothing is handed to the output comm.
\<close>

theorem send_message_closed_comm:
  assumes "response_address st = Inr ra" "ra \<noteq> ''EOF''" "\<not> is_comm_open st"
  shows "send_message addr st msg kwargs = Inr (False, st)"
  using assms by (simp add: send_message_def)

theorem send_message_closed_comm_witness:
  "response_address (serving\<lparr>is_comm_open := False\<rparr>) = Inr ''A1'' \<and>
   send_message ''R1'' (serving\<lparr>is_comm_open := False\<rparr>) ''hello'' no_kwargs =
     Inr (False, serving\<lparr>is_comm_open := False\<rparr>)"
proof -
  have r: "response_address (serving\<lparr>is_comm_open := False\<rparr>) = Inr ''A1''"
    by (simp add: response_address_def serving_def init_driver_def)
  have o: "\<not> is_comm_open (serving\<lparr>is_comm_open := False\<rparr>)" by simp
  show ?thesis
    using send_message_closed_comm[OF r _ o, of "''R1''" "''hello''" no_kwargs] r by simp
qed

section \<open>Properties of the container type\<close>

declare valid.simps [simp del]

declare encode_data.simps [simp del]

declare JSONObject_encode_data.simps [simp del]

declare JSONObject_decode_data.simps [simp del]

subsection \<open>The hooks\<close>

lemma assign_fresh:
  "index \<notin> set (map fst container) \<Longrightarrow> assign container index v = container @ [(index, v)]"
  by (induction container index v rule: assign.induct) auto

lemma get_element_present:
  "map_of container index = Some x \<Longrightarrow> get_element container index dflt = Some x"
  by (auto simp: get_element_def has_element_def dest: map_of_SomeD intro: rev_image_eqI)

lemma get_element_absent:
  "map_of container index = None \<Longrightarrow> get_element container index dflt = dflt"
  by (simp add: get_element_def has_element_def map_of_eq_None_iff)

lemma decode_loop_Cons:
  "decode_loop reg tdef ((k, v) # rest) container =
     (case td_properties tdef of
        None \<Rightarrow> Inl KeyError
      | Some props \<Rightarrow>
          (case get_element props k (Some empty_typedef) of
             None \<Rightarrow> Inl TypeError
           | Some vtypedef \<Rightarrow>
               (case decode_element reg v vtypedef of
                  Inl e \<Rightarrow> Inl e
                | Inr d \<Rightarrow> decode_loop reg tdef rest (assign container k d))))"
  by (simp add: decode_element_def split: option.splits sum.splits type_cls.splits)

subsection \<open>The loops invert each other\<close>

lemma loop_roundtrip:
  assumes props: "td_properties tdef = Some props"
    and elem: "\<And>k v t. (k, v) \<in> set kvs \<Longrightarrow> valid reg v t \<Longrightarrow>
                 \<exists>e. encode_data reg v (Some t) = Inr e \<and> decode_element reg e t = Inr v"
    and items: "valid_items (valid reg) props kvs"
    and dist: "distinct (map fst kvs)"
    and fresh: "set (map fst c) \<inter> set (map fst kvs) = {}"
  shows "\<exists>es. encode_loop reg tdef kvs c = Inr (c @ es) \<and> map fst es = map fst kvs \<and>
           (\<forall>c'. set (map fst c') \<inter> set (map fst kvs) = {} \<longrightarrow>
                 decode_loop reg tdef es c' = Inr (c' @ kvs))"
  using elem items dist fresh
proof (induction kvs arbitrary: c)
  case Nil
  then show ?case by simp
next
  case (Cons p rest)
  obtain k v where p: "p = (k, v)" by (cases p)
  from Cons.prems(2) p obtain t where t: "map_of props k = Some t" "valid reg v t"
    and rest_ok: "valid_items (valid reg) props rest"
    by (cases "map_of props k") auto
  from Cons.prems(1)[of k v t] p t(2)
  obtain e where e: "encode_data reg v (Some t) = Inr e" "decode_element reg e t = Inr v"
    by auto
  have k_c: "k \<notin> set (map fst c)" using Cons.prems(4) p by auto
  have k_rest: "k \<notin> set (map fst rest)" using Cons.prems(3) p by simp
  have fresh': "set (map fst (c @ [(k, e)])) \<inter> set (map fst rest) = {}"
    using Cons.prems(4) k_rest p by auto
  have "\<exists>es. encode_loop reg tdef rest (c @ [(k, e)]) = Inr ((c @ [(k, e)]) @ es) \<and>
      map fst es = map fst rest \<and>
      (\<forall>c'. set (map fst c') \<inter> set (map fst rest) = {} \<longrightarrow>
            decode_loop reg tdef es c' = Inr (c' @ rest))"
  proof (rule Cons.IH)
    fix k' v' t'
    assume "(k', v') \<in> set rest" "valid reg v' t'"
    then show "\<exists>e. encode_data reg v' (Some t') = Inr e \<and> decode_element reg e t' = Inr v'"
      using Cons.prems(1)[of k' v' t'] by simp
  next
    show "valid_items (valid reg) props rest" by (rule rest_ok)
    show "distinct (map fst rest)" using Cons.prems(3) by simp
    show "set (map fst (c @ [(k, e)])) \<inter> set (map fst rest) = {}" by (rule fresh')
  qed
  then obtain es where es: "encode_loop reg tdef rest (c @ [(k, e)]) = Inr ((c @ [(k, e)]) @ es)"
    "map fst es = map fst rest"
    "\<forall>c'. set (map fst c') \<inter> set (map fst rest) = {} \<longrightarrow>
          decode_loop reg tdef es c' = Inr (c' @ rest)"
    by blast
  have enc: "encode_loop reg tdef (p # rest) c = Inr (c @ ((k, e) # es))"
    using p props t(1) e(1) es(1) k_c
    by (simp add: get_element_present assign_fresh)
  have dec: "decode_loop reg tdef ((k, e) # es) c' = Inr (c' @ p # rest)"
    if c': "set (map fst c') \<inter> set (map fst (p # rest)) = {}" for c'
  proof -
    have k_c': "k \<notin> set (map fst c')" using c' p by auto
    have "set (map fst (c' @ [(k, v)])) \<inter> set (map fst rest) = {}"
      using c' k_rest p by auto
    then have "decode_loop reg tdef es (c' @ [(k, v)]) = Inr ((c' @ [(k, v)]) @ rest)"
      using es(3) by blast
    then show ?thesis
      using props t(1) e(2) k_c' p
      by (simp add: decode_loop_Cons get_element_present assign_fresh del: decode_loop.simps)
  qed
  show ?case
  proof (intro exI[of _ "(k, e) # es"] conjI allI impI)
    show "encode_loop reg tdef (p # rest) c = Inr (c @ (k, e) # es)" by (rule enc)
    show "map fst ((k, e) # es) = map fst (p # rest)" using es(2) p by simp
  next
    fix c' :: "(string \<times> val) list"
    assume "set (map fst c') \<inter> set (map fst (p # rest)) = {}"
    then show "decode_loop reg tdef ((k, e) # es) c' = Inr (c' @ p # rest)" by (rule dec)
  qed
qed

lemma container_roundtrip:
  assumes elem: "\<And>k x t. (k, x) \<in> set kvs \<Longrightarrow> valid reg x t \<Longrightarrow>
                   \<exists>e. encode_data reg x (Some t) = Inr e \<and> decode_element reg e t = Inr x"
    and ok: "valid_container reg (Dict kvs) tdef"
  shows "\<exists>e. JSONObject_encode_data reg (Dict kvs) tdef = Inr e \<and>
             JSONObject_decode_data reg e tdef = Inr (Dict kvs)"
proof (cases "td_properties tdef")
  case None
  then have "kvs = []" using ok by (simp add: valid_container_def)
  then show ?thesis
    by (simp add: iterate_def JSONObject_encode_data.simps JSONObject_decode_data.simps)
next
  case (Some props)
  then have items: "valid_items (valid reg) props kvs" and dist: "distinct (map fst kvs)"
    using ok by (simp_all add: valid_container_def)
  have "\<exists>es. encode_loop reg tdef kvs [] = Inr ([] @ es) \<and> map fst es = map fst kvs \<and>
      (\<forall>c'. set (map fst c') \<inter> set (map fst kvs) = {} \<longrightarrow>
            decode_loop reg tdef es c' = Inr (c' @ kvs))"
  proof (rule loop_roundtrip[OF Some _ items dist])
    fix k v t
    assume "(k, v) \<in> set kvs" "valid reg v t"
    then show "\<exists>e. encode_data reg v (Some t) = Inr e \<and> decode_element reg e t = Inr v"
      by (rule elem)
  qed simp
  then obtain es where es: "encode_loop reg tdef kvs [] = Inr es"
    "\<forall>c'. set (map fst c') \<inter> set (map fst kvs) = {} \<longrightarrow>
          decode_loop reg tdef es c' = Inr (c' @ kvs)"
    by auto
  from es(2)[rule_format, of "[]"] have "decode_loop reg tdef es [] = Inr kvs" by simp
  then show ?thesis using es(1)
    by (simp add: iterate_def JSONObject_encode_data.simps JSONObject_decode_data.simps)
qed

lemma element_roundtrip:
  "valid reg v t \<Longrightarrow>
     \<exists>e. encode_data reg v (Some t) = Inr e \<and> decode_element reg e t = Inr v"
proof (induction v arbitrary: t)
  case (Dict kvs)
  from Dict.prems obtain name cls where n: "td_type t = Some name" "type_name reg (Dict kvs) = name"
    "classes reg name = Some cls"
    by (auto simp: valid.simps split: option.splits)
  show ?case
  proof (cases cls)
    case JSONObjectMetaschemaType
    have vc: "valid_container reg (Dict kvs) t"
      using Dict.prems n JSONObjectMetaschemaType
      by (simp add: valid_container_def valid.simps)
    have "\<exists>e. JSONObject_encode_data reg (Dict kvs) t = Inr e \<and>
             JSONObject_decode_data reg e t = Inr (Dict kvs)"
    proof (rule container_roundtrip[OF _ vc])
      fix k x t'
      assume "(k, x) \<in> set kvs" "valid reg x t'"
      then show "\<exists>e. encode_data reg x (Some t') = Inr e \<and> decode_element reg e t' = Inr x"
        using Dict.IH[of "(k, x)" x t'] by simp
    qed
    then show ?thesis using n JSONObjectMetaschemaType
      by (simp add: get_type_class_def decode_element_def encode_data.simps)
  next
    case (OtherType enc dec)
    then show ?thesis using Dict.prems n
      by (auto simp: valid.simps get_type_class_def decode_element_def encode_data.simps
          split: sum.splits)
  qed
next
  case (Str s)
  then show ?case
    by (auto simp: valid.simps get_type_class_def decode_element_def encode_data.simps
        split: option.splits type_cls.splits sum.splits)
next
  case (Num i)
  then show ?case
    by (auto simp: valid.simps get_type_class_def decode_element_def encode_data.simps
        split: option.splits type_cls.splits sum.splits)
qed
subsection \<open>The claims about the container type\<close>

text \<open>
  C1. For every typedef \<open>T\<close> and every value \<open>v\<close> valid under \<open>T\<close> for the JSON object
  class, \<open>decode_data(encode_data(v, T), T) = v\<close>. Validity is recursive, so the law
  holds for containers nested to any depth: each element is encoded by the generic
  dispatcher with its typedef from \<open>T['properties']\<close> and decoded by the class that the
  registry gives for the typedef's \<open>'type'\<close>.
\<close>

theorem container_decode_encode:
  assumes "valid_container reg v T"
  shows "\<exists>e. JSONObject_encode_data reg v T = Inr e \<and> JSONObject_decode_data reg e T = Inr v"
proof (cases v)
  case (Dict kvs)
  show ?thesis unfolding Dict
  proof (rule container_roundtrip)
    fix k x t
    assume "(k, x) \<in> set kvs" "valid reg x t"
    then show "\<exists>e. encode_data reg x (Some t) = Inr e \<and> decode_element reg e t = Inr x"
      by (simp add: element_roundtrip)
  next
    show "valid_container reg (Dict kvs) T" using assms Dict by simp
  qed
next
  case (Str s)
  then show ?thesis using assms by (simp add: valid_container_def)
next
  case (Num i)
  then show ?thesis using assms by (simp add: valid_container_def)
qed

lemma example_valid: "valid_container example_registry example_value example_typedef"
  by (simp add: valid_container_def example_value_def example_typedef_def valid.simps
      example_registry_def example_type_name_def bytes_data_def int_data_def)

theorem container_decode_encode_witness:
  "valid_container example_registry example_value example_typedef \<and>
   (\<exists>e. JSONObject_encode_data example_registry example_value example_typedef = Inr e \<and>
        JSONObject_decode_data example_registry e example_typedef = Inr example_value)"
  using container_decode_encode[OF example_valid] example_valid by simp

text \<open>
  C4. An element without an entry under \<open>'properties'\<close> gets the empty typedef, whose
  \<open>'type'\<close> is then read: decoding raises \<open>KeyError\<close>, for every registry. Encoding the
  same dict with the same typedef succeeds.
\<close>

theorem decode_missing_element_typedef:
  "JSONObject_decode_data reg (Dict [(''a'', Str ''x'')]) (Typedef (Some ''object'') (Some []) [])
     = Inl KeyError \<and>
   JSONObject_encode_data example_registry (Dict [(''a'', Str ''x'')])
       (Typedef (Some ''object'') (Some []) [])
     = Inr (Dict [(''a'', Str ''x'')])"
  by (simp add: JSONObject_decode_data.simps JSONObject_encode_data.simps encode_data.simps
      iterate_def get_element_def has_element_def empty_typedef_def get_type_class_def
      example_registry_def example_type_name_def bytes_data_def)

section \<open>Properties of MetaschemaProperty.validate\<close>

text \<open>
  C8 (amended). For a class with no \<open>_validate\<close> and no \<open>_compare\<close> of its own:
  when the instance is of none of the class's types, \<open>validate\<close> yields nothing; when it
  is of one of them and the class has an encoder, the instance is encoded (with the schema
  value as \<open>typedef\<close>) and \<open>validate\<close> yields nothing if the result equals the schema
  value, and the one message \<open>x is not equal to value\<close> otherwise, without raising; with
  no encoder it raises \<open>NotImplementedError\<close>. When \<open>_validate\<close> is \<open>False\<close> nothing is
  yielded for any instance, and when \<open>_validate\<close> is a function, what it returns decides.
\<close>

theorem validate_cases:
  "(validate_attr cls = VNone \<and> \<not> list_ex (is_type instance) (types cls) \<longrightarrow>
      validate str cls is_type v instance schema = Inr []) \<and>
   (validate_attr cls = VNone \<and> compare_attr cls = None \<and>
    list_ex (is_type instance) (types cls) \<and> encode_attr cls = Some f \<longrightarrow>
      encode cls instance (Some v) = Inr (f instance (Some v)) \<and>
      validate str cls is_type v instance schema =
        Inr (if f instance (Some v) = v then []
             else [str (f instance (Some v)) @ '' is not equal to '' @ str v])) \<and>
   (validate_attr cls = VNone \<and> list_ex (is_type instance) (types cls) \<and>
    encode_attr cls = None \<longrightarrow>
      validate str cls is_type v instance schema = Inl NotImplementedError) \<and>
   (validate_attr cls = VFalse \<longrightarrow> validate str cls is_type v instance schema = Inr []) \<and>
   (validate_attr cls = VFun g \<longrightarrow>
      validate str cls is_type v instance schema = errors_of (g is_type v instance schema))"
  by (simp add: validate_def encode_def compare_def)

theorem validate_cases_witness:
  "validate unary length_property is_string 3 ''abcd'' () = Inr [''|||| is not equal to |||''] \<and>
   validate unary length_property is_string 4 ''abcd'' () = Inr [] \<and>
   validate unary (length_property\<lparr>types := [''number'']\<rparr>) is_string 3 ''abcd'' () = Inr [] \<and>
   validate unary (length_property\<lparr>encode_attr := None\<rparr>) is_string 3 ''abcd'' ()
     = Inl NotImplementedError \<and>
   validate unary (length_property\<lparr>validate_attr := VFun (\<lambda>t v i s. RBool False)\<rparr>)
     is_string 3 ''abcd'' () = Inr []"
proof -
  let ?f = "\<lambda>instance (tdef :: nat option). length (instance :: string)"
  have t: "list_ex (is_string ''abcd'') (types length_property)"
    by (simp add: length_property_def is_string_def)
  have n: "\<not> list_ex (is_string ''abcd'') (types (length_property\<lparr>types := [''number'']\<rparr>))"
    by (simp add: is_string_def)
  have a: "validate unary length_property is_string 3 ''abcd'' () =
      Inr [''|||| is not equal to |||'']"
    using validate_cases[of length_property is_string "''abcd''" unary 3 "()" ?f] t
    by (simp add: length_property_def unary_def numeral_eq_Suc)
  have b: "validate unary length_property is_string 4 ''abcd'' () = Inr []"
    using validate_cases[of length_property is_string "''abcd''" unary 4 "()" ?f] t
    by (simp add: length_property_def)
  have c: "validate unary (length_property\<lparr>types := [''number'']\<rparr>) is_string 3 ''abcd'' ()
      = Inr []"
    using validate_cases[of "length_property\<lparr>types := [''number'']\<rparr>" is_string "''abcd''"
        unary 3 "()"] n
    by (simp add: length_property_def)
  have d: "validate unary (length_property\<lparr>encode_attr := None\<rparr>) is_string 3 ''abcd'' ()
      = Inl NotImplementedError"
    using validate_cases[of "length_property\<lparr>encode_attr := None\<rparr>" is_string "''abcd''"
        unary 3 "()"] t
    by (simp add: length_property_def)
  have e: "validate unary (length_property\<lparr>validate_attr := VFun (\<lambda>t v i s. RBool False)\<rparr>)
     is_string 3 ''abcd'' () = Inr []"
    using validate_cases[of "length_property\<lparr>validate_attr := VFun (\<lambda>t v i s. RBool False)\<rparr>"
        is_string "''abcd''" unary 3 "()" _ "\<lambda>t v i s. RBool False"]
    by (simp add: errors_of_def)
  show ?thesis using a b c d e by blast
qed

text \<open>
  C8 as stated fails: with \<open>_validate = False\<close>, an instance of an accepted type whose
  encoded value differs from the schema value yields no error.
\<close>

theorem validate_switched_off:
  "list_ex (is_string ''abcd'') (types (length_property\<lparr>validate_attr := VFalse\<rparr>)) \<and>
   encode (length_property\<lparr>validate_attr := VFalse\<rparr>) ''abcd'' (Some 3) = Inr 4 \<and>
   compare unary (length_property\<lparr>validate_attr := VFalse\<rparr>) 4 3 = [''|||| is not equal to |||''] \<and>
   validate unary (length_property\<lparr>validate_attr := VFalse\<rparr>) is_string 3 ''abcd'' () = Inr []"
  by (simp add: validate_def encode_def compare_def length_property_def is_string_def unary_def
      numeral_eq_Suc)
section \<open>Properties of the Comm contract\<close>

declare chunks.simps [simp del]

lemma reassemble_chunks:
  "0 < n \<Longrightarrow> reassemble (length s) (map Chunk (chunks n s) @ rest) = Some (s, rest)"
proof (induction n s rule: chunks.induct)
  case (1 n s)
  show ?case
  proof (cases "s = []")
    case True
    then show ?thesis by (simp add: chunks.simps)
  next
    case False
    with "1.prems" have c: "chunks n s = take n s # chunks n (drop n s)"
      by (simp add: chunks.simps)
    have ih: "reassemble (length (drop n s)) (map Chunk (chunks n (drop n s)) @ rest) =
        Some (drop n s, rest)"
      using "1.IH" "1.prems" False by simp
    have t: "take n s \<noteq> []" using False "1.prems" by (cases s) auto
    obtain m where m: "length s = Suc m" using False by (cases s) auto
    have "reassemble (Suc m) (Chunk (take n s) # map Chunk (chunks n (drop n s)) @ rest) =
        map_option (\<lambda>(x, r). (take n s @ x, r))
          (reassemble (Suc m - length (take n s)) (map Chunk (chunks n (drop n s)) @ rest))"
      using t m by simp
    also have "Suc m - length (take n s) = length (drop n s)" using m by simp
    finally show ?thesis using c ih m by simp
  qed
qed

lemma nolimit_exchange:
  assumes "\<not> send_is_closed l" "\<not> recv_is_closed l" "in_flight l = []" "0 < maxMsgSize l"
    "msg \<noteq> link_eof_msg l"
  shows "recv_nolimit (snd (send_nolimit l msg)) = ((True, msg), l)"
  using assms reassemble_chunks[of "maxMsgSize l" msg "[]"]
  by (simp add: send_nolimit_def recv_nolimit_def)

text \<open>
  C7. On a link with both ends open and nothing in flight, sending the EOF sentinel, by
  \<open>send\<close> or by \<open>send_nolimit\<close>, returns \<open>False\<close> and closes the sender; the peer's next
  \<open>recv\<close>, respectively \<open>recv_nolimit\<close>, returns \<open>False\<close> with the EOF sentinel as message
  and closes the receiver.
\<close>

theorem eof_closes_both_ends:
  assumes "\<not> send_is_closed l" "\<not> recv_is_closed l" "in_flight l = []"
  shows "fst (send l (link_eof_msg l)) = False \<and>
         send_is_closed (snd (send l (link_eof_msg l))) \<and>
         fst (recv (snd (send l (link_eof_msg l)))) = (False, link_eof_msg l) \<and>
         recv_is_closed (snd (recv (snd (send l (link_eof_msg l))))) \<and>
         fst (send_nolimit l (link_eof_msg l)) = False \<and>
         send_is_closed (snd (send_nolimit l (link_eof_msg l))) \<and>
         fst (recv_nolimit (snd (send_nolimit l (link_eof_msg l)))) = (False, link_eof_msg l) \<and>
         recv_is_closed (snd (recv_nolimit (snd (send_nolimit l (link_eof_msg l)))))"
  using assms by (simp add: send_def recv_def send_nolimit_def recv_nolimit_def)

theorem eof_closes_both_ends_witness:
  "\<not> send_is_closed file_link \<and> \<not> recv_is_closed file_link \<and> in_flight file_link = [] \<and>
   send file_link ''EOF!!!'' =
     (False, file_link\<lparr>in_flight := [Whole ''EOF!!!''], send_is_closed := True\<rparr>) \<and>
   fst (recv (snd (send file_link ''EOF!!!''))) = (False, ''EOF!!!'') \<and>
   recv_is_closed (snd (recv (snd (send file_link ''EOF!!!'')))) \<and>
   fst (recv_nolimit (snd (send_nolimit file_link ''EOF!!!''))) = (False, ''EOF!!!'') \<and>
   recv_is_closed (snd (recv_nolimit (snd (send_nolimit file_link ''EOF!!!''))))"
proof -
  have a: "\<not> send_is_closed file_link" "\<not> recv_is_closed file_link" "in_flight file_link = []"
    by (simp_all add: file_link_def)
  have e: "link_eof_msg file_link = ''EOF!!!''" by (simp add: file_link_def)
  have s: "send file_link ''EOF!!!'' =
     (False, file_link\<lparr>in_flight := [Whole ''EOF!!!''], send_is_closed := True\<rparr>)"
    by (simp add: send_def file_link_def)
  show ?thesis using eof_closes_both_ends[OF a] a e s by simp
qed

end
